theory Spec2Isabelle
  imports Main "HOL-Library.Sublist"
begin

section \<open>Python values\<close>

text \<open>
  \<^verbatim>\<open>generate_targets.py\<close> works on the objects the Kubernetes client hands back: nested
  dicts, lists, strings, numbers, booleans and \<^verbatim>\<open>None\<close>. A dict is an association list in
  insertion order, with string keys as in JSON (the keys of a Python dict are distinct;
  a lookup takes the first binding). A string is a list of characters, one \<open>char\<close> per
  code point. Floating point numbers are left out of the model.
\<close>

datatype pyval =
    PNone
  | PBool bool
  | PInt int
  | PStr string
  | PList "pyval list"
  | PDict "(string \<times> pyval) list"

datatype py_error = AttributeError | TypeError | KeyError

text \<open>Truth value of an object, as \<^verbatim>\<open>if x\<close> and \<^verbatim>\<open>not x\<close> test it.\<close>

fun truthy :: "pyval \<Rightarrow> bool" where
  "truthy PNone = False"
| "truthy (PBool b) = b"
| "truthy (PInt i) = (i \<noteq> 0)"
| "truthy (PStr s) = (s \<noteq> [])"
| "truthy (PList xs) = (xs \<noteq> [])"
| "truthy (PDict kvs) = (kvs \<noteq> [])"

text \<open>\<^verbatim>\<open>x.get(k, d)\<close>: only a dict has the method.\<close>

fun dict_get :: "pyval \<Rightarrow> string \<Rightarrow> pyval \<Rightarrow> py_error + pyval" where
  "dict_get (PDict kvs) k d = Inr (case map_of kvs k of None \<Rightarrow> d | Some v \<Rightarrow> v)"
| "dict_get _ k d = Inl AttributeError"

text \<open>
  \<^verbatim>\<open>for x in v\<close>: a list yields its elements, a string its characters, a dict its keys;
  anything else is not iterable.
\<close>

fun py_iter :: "pyval \<Rightarrow> py_error + pyval list" where
  "py_iter (PList xs) = Inr xs"
| "py_iter (PStr s) = Inr (map (\<lambda>c. PStr [c]) s)"
| "py_iter (PDict kvs) = Inr (map (\<lambda>kv. PStr (fst kv)) kvs)"
| "py_iter _ = Inl TypeError"

text \<open>
  Dict keys are compared by \<^verbatim>\<open>==\<close> and hash: \<^verbatim>\<open>True\<close> and \<^verbatim>\<open>1\<close> are the same key, lists
  and dicts are unhashable.
\<close>

datatype pykey = KNone | KInt int | KStr string

fun key_of :: "pyval \<Rightarrow> pykey option" where
  "key_of PNone = Some KNone"
| "key_of (PBool b) = Some (KInt (if b then 1 else 0))"
| "key_of (PInt i) = Some (KInt i)"
| "key_of (PStr s) = Some (KStr s)"
| "key_of (PList xs) = None"
| "key_of (PDict kvs) = None"

section \<open>Route extraction: \<^verbatim>\<open>parse_apigee_routes\<close>\<close>

text \<open>
  The route map is a dict from hostname to a list of paths, kept in insertion order.
  Only strings are ever appended as paths (anything else fails at \<^verbatim>\<open>startswith\<close>).
\<close>

type_synonym route_map = "(pyval \<times> string list) list"

definition reserved_prefix :: string where
  "reserved_prefix = ''/__apigee__/''"

text \<open>\<^verbatim>\<open>uri.get('prefixPattern') or uri.get('prefix')\<close>\<close>

definition accepted_prefix :: "pyval \<Rightarrow> py_error + pyval" where
  "accepted_prefix uri =
     (case dict_get uri ''prefixPattern'' PNone of
        Inl e \<Rightarrow> Inl e
      | Inr pp \<Rightarrow> if truthy pp then Inr pp else dict_get uri ''prefix'' PNone)"

text \<open>
  The body of the loop over the matches of a rule: the path appended to \<^verbatim>\<open>routes\<close>, if any.
  \<^verbatim>\<open>startswith\<close> exists on strings only.
\<close>

definition match_route :: "pyval \<Rightarrow> py_error + string option" where
  "match_route mt =
     (case dict_get mt ''uri'' (PDict []) of
        Inl e \<Rightarrow> Inl e
      | Inr uri \<Rightarrow>
          (case accepted_prefix uri of
             Inl e \<Rightarrow> Inl e
           | Inr p \<Rightarrow>
               if \<not> truthy p then Inr None
               else (case p of
                       PStr s \<Rightarrow> Inr (if prefix reserved_prefix s then None else Some s)
                     | _ \<Rightarrow> Inl AttributeError)))"

text \<open>\<^verbatim>\<open>for match in rule.get('matches', [])\<close>, with \<^verbatim>\<open>routes\<close> as accumulator.\<close>

fun matches_loop :: "string list \<Rightarrow> pyval list \<Rightarrow> py_error + string list" where
  "matches_loop routes [] = Inr routes"
| "matches_loop routes (mt # mts) =
     (case match_route mt of
        Inl e \<Rightarrow> Inl e
      | Inr None \<Rightarrow> matches_loop routes mts
      | Inr (Some s) \<Rightarrow> matches_loop (routes @ [s]) mts)"

text \<open>\<^verbatim>\<open>for rule in rules\<close>\<close>

fun rules_loop :: "string list \<Rightarrow> pyval list \<Rightarrow> py_error + string list" where
  "rules_loop routes [] = Inr routes"
| "rules_loop routes (rule # rules) =
     (case dict_get rule ''matches'' (PList []) of
        Inl e \<Rightarrow> Inl e
      | Inr ms \<Rightarrow>
          (case py_iter ms of
             Inl e \<Rightarrow> Inl e
           | Inr mts \<Rightarrow>
               (case matches_loop routes mts of
                  Inl e \<Rightarrow> Inl e
                | Inr routes' \<Rightarrow> rules_loop routes' rules)))"

text \<open>
  The first half of the loop body over the items: \<open>None\<close> when the item is skipped
  (\<^verbatim>\<open>continue\<close>, or \<^verbatim>\<open>routes\<close> empty), else the \<^verbatim>\<open>hostnames\<close> object and the routes.
\<close>

definition item_routes :: "pyval \<Rightarrow> py_error + (pyval \<times> string list) option" where
  "item_routes item =
     (case dict_get item ''spec'' (PDict []) of
        Inl e \<Rightarrow> Inl e
      | Inr spec \<Rightarrow>
     (case dict_get spec ''hostnames'' PNone of
        Inl e \<Rightarrow> Inl e
      | Inr hostnames \<Rightarrow>
     (case dict_get spec ''rules'' (PDict []) of
        Inl e \<Rightarrow> Inl e
      | Inr rl \<Rightarrow>
     (case dict_get rl ''http'' (PList []) of
        Inl e \<Rightarrow> Inl e
      | Inr rules \<Rightarrow>
          if \<not> truthy hostnames \<or> \<not> truthy rules then Inr None
          else (case py_iter rules of
                  Inl e \<Rightarrow> Inl e
                | Inr rs \<Rightarrow>
                    (case rules_loop [] rs of
                       Inl e \<Rightarrow> Inl e
                     | Inr routes \<Rightarrow>
                         if routes = [] then Inr None
                         else Inr (Some (hostnames, routes))))))))"

text \<open>Operations on \<^verbatim>\<open>hostname_map\<close>.\<close>

fun lookup_key :: "pykey \<Rightarrow> route_map \<Rightarrow> string list option" where
  "lookup_key k [] = None"
| "lookup_key k ((h, ps) # m) = (if key_of h = Some k then Some ps else lookup_key k m)"

text \<open>\<^verbatim>\<open>hostname_map.setdefault(hostname, [])\<close>\<close>

definition setdefault :: "route_map \<Rightarrow> pyval \<Rightarrow> py_error + route_map" where
  "setdefault m h =
     (case key_of h of
        None \<Rightarrow> Inl TypeError
      | Some k \<Rightarrow> Inr (case lookup_key k m of None \<Rightarrow> m @ [(h, [])] | Some ps \<Rightarrow> m))"

text \<open>\<^verbatim>\<open>hostname_map[hostname]\<close>\<close>

definition getitem :: "route_map \<Rightarrow> pyval \<Rightarrow> py_error + string list" where
  "getitem m h =
     (case key_of h of
        None \<Rightarrow> Inl TypeError
      | Some k \<Rightarrow> (case lookup_key k m of None \<Rightarrow> Inl KeyError | Some ps \<Rightarrow> Inr ps))"

text \<open>\<^verbatim>\<open>hostname_map[hostname].append(route)\<close>, for a key that is present.\<close>

fun append_at :: "pyval \<Rightarrow> string \<Rightarrow> route_map \<Rightarrow> route_map" where
  "append_at h r [] = []"
| "append_at h r ((h', ps) # m) =
     (if key_of h' = key_of h then (h', ps @ [r]) # m else (h', ps) # append_at h r m)"

text \<open>\<^verbatim>\<open>for route in routes\<close>\<close>

fun routes_loop :: "route_map \<Rightarrow> pyval \<Rightarrow> string list \<Rightarrow> py_error + route_map" where
  "routes_loop m h [] = Inr m"
| "routes_loop m h (r # rs) =
     (case getitem m h of
        Inl e \<Rightarrow> Inl e
      | Inr ps \<Rightarrow> routes_loop (if r \<in> set ps then m else append_at h r m) h rs)"

text \<open>\<^verbatim>\<open>for hostname in hostnames\<close>\<close>

fun hostnames_loop :: "route_map \<Rightarrow> pyval list \<Rightarrow> string list \<Rightarrow> py_error + route_map" where
  "hostnames_loop m [] routes = Inr m"
| "hostnames_loop m (h # hs) routes =
     (case setdefault m h of
        Inl e \<Rightarrow> Inl e
      | Inr m1 \<Rightarrow>
          (case routes_loop m1 h routes of
             Inl e \<Rightarrow> Inl e
           | Inr m2 \<Rightarrow> hostnames_loop m2 hs routes))"

text \<open>The whole loop body for one item.\<close>

definition parse_item :: "route_map \<Rightarrow> pyval \<Rightarrow> py_error + route_map" where
  "parse_item m item =
     (case item_routes item of
        Inl e \<Rightarrow> Inl e
      | Inr None \<Rightarrow> Inr m
      | Inr (Some (hostnames, routes)) \<Rightarrow>
          (case py_iter hostnames of
             Inl e \<Rightarrow> Inl e
           | Inr hs \<Rightarrow> hostnames_loop m hs routes))"

fun items_loop :: "route_map \<Rightarrow> pyval list \<Rightarrow> py_error + route_map" where
  "items_loop m [] = Inr m"
| "items_loop m (item # items) =
     (case parse_item m item of
        Inl e \<Rightarrow> Inl e
      | Inr m' \<Rightarrow> items_loop m' items)"

definition parse_apigee_routes :: "pyval \<Rightarrow> py_error + route_map" where
  "parse_apigee_routes items =
     (if \<not> truthy items then Inr []
      else (case py_iter items of
              Inl e \<Rightarrow> Inl e
            | Inr xs \<Rightarrow> items_loop [] xs))"

section \<open>Target generation: \<^verbatim>\<open>generate_prometheus_targets\<close>\<close>

text \<open>The dict appended for one hostname and route.\<close>

definition target :: "string \<Rightarrow> pyval \<Rightarrow> string \<Rightarrow> pyval" where
  "target service_ip hostname route =
     PDict [(''targets'', PList [PStr (''https://'' @ service_ip @ ''/healthz'' @ route)]),
            (''labels'', PDict [(''apigee_hostname'', hostname),
                                (''apigee_basepath'', PStr route),
                                (''job'', PStr ''apigee-health'')])]"

fun targets_of_routes :: "pyval list \<Rightarrow> string \<Rightarrow> pyval \<Rightarrow> string list \<Rightarrow> pyval list" where
  "targets_of_routes targets service_ip hostname [] = targets"
| "targets_of_routes targets service_ip hostname (route # routes) =
     targets_of_routes (targets @ [target service_ip hostname route]) service_ip hostname routes"

fun targets_loop :: "pyval list \<Rightarrow> string \<Rightarrow> route_map \<Rightarrow> pyval list" where
  "targets_loop targets service_ip [] = targets"
| "targets_loop targets service_ip ((hostname, routes) # m) =
     targets_loop (targets_of_routes targets service_ip hostname routes) service_ip m"

definition generate_prometheus_targets :: "route_map \<Rightarrow> string \<Rightarrow> pyval list" where
  "generate_prometheus_targets route_map service_ip = targets_loop [] service_ip route_map"

text \<open>Parsing followed by target generation, as \<^verbatim>\<open>main\<close> chains them.\<close>

definition transform :: "pyval \<Rightarrow> string \<Rightarrow> py_error + pyval list" where
  "transform items service_ip =
     (case parse_apigee_routes items of
        Inl e \<Rightarrow> Inl e
      | Inr m \<Rightarrow> Inr (generate_prometheus_targets m service_ip))"

section \<open>The resolver and the fetch\<close>

text \<open>
  A call of the Kubernetes API either raises \<^verbatim>\<open>ApiException\<close> with a status, or returns.
  Of a Service only the field read by the script is kept.
\<close>

datatype 'a api_call = ApiException nat | Returned 'a

record v1_service_spec =
  cluster_ip :: "string option"

record v1_service =
  service_spec :: "v1_service_spec option"

text \<open>
  \<^verbatim>\<open>get_k8s_service_ip\<close>: the failure signal \<^verbatim>\<open>None\<close> is \<open>Inr None\<close>; a Service without
  \<^verbatim>\<open>spec\<close> raises at the attribute access, outside the \<^verbatim>\<open>except\<close> clause.
\<close>

definition get_k8s_service_ip :: "v1_service api_call \<Rightarrow> py_error + string option" where
  "get_k8s_service_ip resp =
     (case resp of
        ApiException status \<Rightarrow> (if status = 404 then Inr None else Inr None)
      | Returned svc \<Rightarrow>
          (case service_spec svc of
             None \<Rightarrow> Inl AttributeError
           | Some sp \<Rightarrow>
               (case cluster_ip sp of
                  None \<Rightarrow> Inr None
                | Some ip \<Rightarrow> if ip = [] \<or> ip = ''None'' then Inr None else Inr (Some ip))))"

text \<open>
  \<^verbatim>\<open>get_apigee_routes_from_cluster\<close>: the failure signal \<^verbatim>\<open>None\<close> is \<open>Inr PNone\<close>. The first
  argument tells whether \<^verbatim>\<open>config.load_incluster_config()\<close> succeeds.
\<close>

definition get_apigee_routes_from_cluster :: "bool \<Rightarrow> pyval api_call \<Rightarrow> py_error + pyval" where
  "get_apigee_routes_from_cluster config_ok resp =
     (if \<not> config_ok then Inr PNone
      else (case resp of
              ApiException status \<Rightarrow> Inr PNone
            | Returned api_response \<Rightarrow> dict_get api_response ''items'' (PList [])))"

section \<open>The program: \<^verbatim>\<open>main\<close>\<close>

text \<open>
  What a run sees of the cluster, and what it leaves behind: the exit code and the call of
  \<^verbatim>\<open>json.dump\<close> on the output file, if any (the document and the \<^verbatim>\<open>indent\<close> argument).
  An uncaught exception ends the run with exit code 1. The output file is taken to be
  writable.
\<close>

record cluster =
  incluster_config :: bool
  service :: "v1_service api_call"
  apigee_routes :: "pyval api_call"

record outcome =
  exit_code :: nat
  written :: "(pyval \<times> nat option) option"

definition sys_exit :: "nat \<Rightarrow> outcome" where
  "sys_exit n = \<lparr>exit_code = n, written = None\<rparr>"

definition uncaught :: "py_error \<Rightarrow> outcome" where
  "uncaught e = \<lparr>exit_code = 1, written = None\<rparr>"

definition main :: "cluster \<Rightarrow> outcome" where
  "main c =
     (if \<not> incluster_config c then sys_exit 1
      else (case get_k8s_service_ip (service c) of
              Inl e \<Rightarrow> uncaught e
            | Inr None \<Rightarrow> sys_exit 1
            | Inr (Some service_ip) \<Rightarrow>
                if service_ip = [] then sys_exit 1
                else (case get_apigee_routes_from_cluster (incluster_config c) (apigee_routes c) of
                        Inl e \<Rightarrow> uncaught e
                      | Inr items \<Rightarrow>
                          if items = PNone then sys_exit 1
                          else (case parse_apigee_routes items of
                                  Inl e \<Rightarrow> uncaught e
                                | Inr route_map \<Rightarrow>
                                    if route_map = []
                                    then \<lparr>exit_code = 0, written = Some (PList [], None)\<rparr>
                                    else \<lparr>exit_code = 0,
                                          written = Some (PList (generate_prometheus_targets
                                                                   route_map service_ip),
                                                          Some 2)\<rparr>))))"

section \<open>First-encounter order, in the words of the specification\<close>

text \<open>
  What the specification says of the route map is stated on the input alone. A field of
  an object reads as null when it is absent or when the value is no object; the elements
  of a value are the elements \<^verbatim>\<open>for\<close> yields, none for a value that is not iterable.
\<close>

fun field :: "pyval \<Rightarrow> string \<Rightarrow> pyval" where
  "field (PDict kvs) k = (case map_of kvs k of None \<Rightarrow> PNone | Some v \<Rightarrow> v)"
| "field _ k = PNone"

definition elements :: "pyval \<Rightarrow> pyval list" where
  "elements v = (case py_iter v of Inl e \<Rightarrow> [] | Inr xs \<Rightarrow> xs)"

text \<open>
  The path a match entry carries: the value of "prefixPattern" of its URI matcher, or that
  of "prefix" when the former is falsy; none when that value is no string, is empty, or
  starts with the reserved prefix.
\<close>

definition match_paths :: "pyval \<Rightarrow> string list" where
  "match_paths mt =
     (case (if truthy (field (field mt ''uri'') ''prefixPattern'')
            then field (field mt ''uri'') ''prefixPattern''
            else field (field mt ''uri'') ''prefix'') of
        PStr s \<Rightarrow> if s = [] \<or> prefix ''/__apigee__/'' s then [] else [s]
      | _ \<Rightarrow> [])"

text \<open>
  The paths of a resource in input order: rule after rule of \<^verbatim>\<open>spec.rules.http\<close>, match
  after match of a rule. Its hostnames in input order: the elements of \<^verbatim>\<open>spec.hostnames\<close>.
\<close>

definition rule_paths :: "pyval \<Rightarrow> string list" where
  "rule_paths rule = concat (map match_paths (elements (field rule ''matches'')))"

definition resource_paths :: "pyval \<Rightarrow> string list" where
  "resource_paths item =
     concat (map rule_paths (elements (field (field (field item ''spec'') ''rules'') ''http'')))"

definition resource_hostnames :: "pyval \<Rightarrow> pyval list" where
  "resource_hostnames item = elements (field (field item ''spec'') ''hostnames'')"

text \<open>
  The (hostname, path) pairs of the input in encounter order: resource after resource, for
  each resource hostname after hostname, for each hostname path after path.
\<close>

definition resource_pairs :: "pyval \<Rightarrow> (pyval \<times> string) list" where
  "resource_pairs item =
     concat (map (\<lambda>h. map (\<lambda>r. (h, r)) (resource_paths item)) (resource_hostnames item))"

definition input_pairs :: "pyval list \<Rightarrow> (pyval \<times> string) list" where
  "input_pairs items = concat (map resource_pairs items)"

text \<open>
  The elements of a list in the order of their first occurrence, two elements being the
  same when \<open>f\<close> maps them to the same value; the first occurrence is the one kept.
\<close>

fun first_seen_by :: "('a \<Rightarrow> 'b) \<Rightarrow> 'a list \<Rightarrow> 'a list" where
  "first_seen_by f [] = []"
| "first_seen_by f (x # xs) = x # first_seen_by f (filter (\<lambda>y. f y \<noteq> f x) xs)"

text \<open>
  The route map the specification describes for a sequence of pairs: the hostnames in
  first-encounter order, each with its paths in first-encounter order.
\<close>

definition paths_of :: "pyval \<Rightarrow> (pyval \<times> string) list \<Rightarrow> string list" where
  "paths_of h pairs =
     first_seen_by (\<lambda>r. r) (map snd (filter (\<lambda>p. key_of (fst p) = key_of h) pairs))"

definition first_seen_map :: "(pyval \<times> string) list \<Rightarrow> route_map" where
  "first_seen_map pairs =
     map (\<lambda>h. (h, paths_of h pairs)) (first_seen_by key_of (map fst pairs))"

section \<open>Auxiliary: entering one pair at a time\<close>

text \<open>
  One (hostname, path) pair entered into a route map: what \<^verbatim>\<open>setdefault\<close> and the guarded
  append of the inner loop do together. The proofs show that the loops of
  \<^verbatim>\<open>parse_apigee_routes\<close> enter the pairs of the input one after the other.
\<close>

fun upsert :: "pyval \<Rightarrow> string \<Rightarrow> route_map \<Rightarrow> route_map" where
  "upsert h r [] = [(h, [r])]"
| "upsert h r ((h', ps) # m) =
     (if key_of h' = key_of h then (h', if r \<in> set ps then ps else ps @ [r]) # m
      else (h', ps) # upsert h r m)"

abbreviation enter :: "route_map \<Rightarrow> pyval \<times> string \<Rightarrow> route_map" where
  "enter \<equiv> (\<lambda>m p. upsert (fst p) (snd p) m)"

section \<open>Theorems\<close>

subsection \<open>Target generation\<close>

lemma targets_of_routes_eq:
  "targets_of_routes acc ip h rs = acc @ map (target ip h) rs"
  by (induction rs arbitrary: acc) simp_all

lemma targets_loop_eq:
  "targets_loop acc ip m = acc @ concat (map (\<lambda>(h, rs). map (target ip h) rs) m)"
  by (induction m arbitrary: acc) (auto simp: targets_of_routes_eq)

text \<open>
  C1: for every address and every route map, the generator returns exactly one target per
  (hostname, path) pair, in the order of the map (hostnames in map order, the paths of a
  hostname in list order); the target has the single URL
  \<^verbatim>\<open>https://<address>/healthz<path>\<close> under "targets" and the labels "apigee_hostname",
  "apigee_basepath" and "job" = "apigee-health" under "labels".
\<close>

theorem generate_prometheus_targets_pairs:
  "generate_prometheus_targets m ip =
     concat (map (\<lambda>(h, rs).
       map (\<lambda>r. PDict [(''targets'', PList [PStr (''https://'' @ ip @ ''/healthz'' @ r)]),
                        (''labels'', PDict [(''apigee_hostname'', h),
                                            (''apigee_basepath'', PStr r),
                                            (''job'', PStr ''apigee-health'')])]) rs) m)
   \<and> length (generate_prometheus_targets m ip) = sum_list (map (\<lambda>(h, rs). length rs) m)"
proof -
  have t: "target ip =
      (\<lambda>h r. PDict [(''targets'', PList [PStr (''https://'' @ ip @ ''/healthz'' @ r)]),
                     (''labels'', PDict [(''apigee_hostname'', h),
                                         (''apigee_basepath'', PStr r),
                                         (''job'', PStr ''apigee-health'')])])"
    by (simp add: target_def fun_eq_iff)
  have g: "generate_prometheus_targets m ip = concat (map (\<lambda>(h, rs). map (target ip h) rs) m)"
    by (simp add: generate_prometheus_targets_def targets_loop_eq)
  have l: "length (concat (map (\<lambda>(h, rs). map (target ip h) rs) m))
             = sum_list (map (\<lambda>(h, rs). length rs) m)"
    by (induction m) auto
  show ?thesis
    using g l unfolding t by simp
qed

subsection \<open>First-encounter order of a list\<close>

lemma set_first_seen_by_subset: "set (first_seen_by f xs) \<subseteq> set xs"
  by (induction f xs rule: first_seen_by.induct) auto

lemma image_first_seen_by: "f ` set (first_seen_by f xs) = f ` set xs"
proof (induction f xs rule: first_seen_by.induct)
  case (1 f)
  then show ?case by simp
next
  case (2 f x xs)
  have "f ` set (x # xs) = insert (f x) (f ` set (filter (\<lambda>y. f y \<noteq> f x) xs))"
    by auto
  with 2 show ?case by simp
qed

lemma set_first_seen_id: "set (first_seen_by (\<lambda>r. r) xs) = set xs"
  using image_first_seen_by [of "\<lambda>r. r" xs] by simp

lemma distinct_first_seen_by: "distinct (map f (first_seen_by f xs))"
proof (induction f xs rule: first_seen_by.induct)
  case (1 f)
  then show ?case by simp
next
  case (2 f x xs)
  have "f x \<notin> f ` set (first_seen_by f (filter (\<lambda>y. f y \<noteq> f x) xs))"
    unfolding image_first_seen_by by auto
  with 2 show ?case by simp
qed

lemma first_seen_by_snoc:
  "first_seen_by f (xs @ [y]) =
     (if f y \<in> f ` set xs then first_seen_by f xs else first_seen_by f xs @ [y])"
proof (induction f xs rule: first_seen_by.induct)
  case (1 f)
  then show ?case by simp
next
  case (2 f x xs)
  show ?case
  proof (cases "f y = f x")
    case True
    then show ?thesis by simp
  next
    case False
    have "(f y \<in> f ` set (filter (\<lambda>z. f z \<noteq> f x) xs)) = (f y \<in> f ` set xs)"
      using False by auto
    with False 2 show ?thesis by auto
  qed
qed


subsection \<open>The loops enter one pair after the other\<close>

lemma upsert_present:
  "key_of h = Some k \<Longrightarrow> lookup_key k m = Some ps \<Longrightarrow>
     upsert h r m = (if r \<in> set ps then m else append_at h r m)"
  by (induction m) (auto split: if_splits)

lemma upsert_absent:
  "key_of h = Some k \<Longrightarrow> lookup_key k m = None \<Longrightarrow> upsert h r m = m @ [(h, [r])]"
  by (induction m) (auto split: if_splits)

lemma upsert_absent_default:
  "key_of h = Some k \<Longrightarrow> lookup_key k m = None \<Longrightarrow> upsert h r (m @ [(h, [])]) = m @ [(h, [r])]"
  by (induction m) (auto split: if_splits)

lemma lookup_key_upsert:
  "key_of h = Some k \<Longrightarrow> lookup_key k (upsert h r m) \<noteq> None"
  by (induction m) auto

lemma routes_loop_upsert:
  "key_of h = Some k \<Longrightarrow> lookup_key k m \<noteq> None \<Longrightarrow>
     routes_loop m h rs = Inr (foldl (\<lambda>m r. upsert h r m) m rs)"
proof (induction rs arbitrary: m)
  case Nil
  then show ?case by simp
next
  case (Cons r rs)
  from Cons.prems obtain ps where ps: "lookup_key k m = Some ps" by auto
  have g: "getitem m h = Inr ps"
    using Cons.prems(1) ps by (simp add: getitem_def)
  have u: "(if r \<in> set ps then m else append_at h r m) = upsert h r m"
    using upsert_present [OF Cons.prems(1) ps] by simp
  have "routes_loop (upsert h r m) h rs = Inr (foldl (\<lambda>m r. upsert h r m) (upsert h r m) rs)"
    using Cons.IH [OF Cons.prems(1) lookup_key_upsert [OF Cons.prems(1)]] .
  then show ?case
    using g u by simp
qed

lemma setdefault_routes_loop:
  assumes k: "key_of h = Some k" and rs: "rs \<noteq> []" and sd: "setdefault m h = Inr m1"
  shows "routes_loop m1 h rs = Inr (foldl (\<lambda>m r. upsert h r m) m rs)"
proof (cases "lookup_key k m")
  case None
  from rs obtain r rs' where rs': "rs = r # rs'" by (cases rs) auto
  have m1: "m1 = m @ [(h, [])]"
    using sd k None by (simp add: setdefault_def)
  have l1: "lookup_key k m1 = Some []"
    unfolding m1 using k None by (induction m) auto
  have g: "getitem m1 h = Inr []"
    using k l1 by (simp add: getitem_def)
  have a: "append_at h r m1 = upsert h r m"
    using upsert_present [OF k l1, of r] upsert_absent_default [OF k None, of r]
      upsert_absent [OF k None, of r] m1 by simp
  have "routes_loop (upsert h r m) h rs' = Inr (foldl (\<lambda>m r. upsert h r m) (upsert h r m) rs')"
    by (rule routes_loop_upsert [OF k lookup_key_upsert [OF k]])
  then show ?thesis
    using g a rs' by simp
next
  case (Some ps)
  have "m1 = m"
    using sd k Some by (simp add: setdefault_def)
  then show ?thesis
    using routes_loop_upsert [OF k, of m rs] Some by simp
qed

lemma foldl_enter_map: "foldl enter m (map (\<lambda>r. (h, r)) rs) = foldl (\<lambda>m r. upsert h r m) m rs"
  by (induction rs arbitrary: m) simp_all

lemma hostnames_loop_enter:
  "rs \<noteq> [] \<Longrightarrow> hostnames_loop m hs rs = Inr m' \<Longrightarrow>
     m' = foldl enter m (concat (map (\<lambda>h. map (\<lambda>r. (h, r)) rs) hs))"
proof (induction hs arbitrary: m)
  case Nil
  then show ?case by simp
next
  case (Cons h hs)
  from Cons.prems(2) obtain m1 where sd: "setdefault m h = Inr m1"
    by (auto split: sum.splits)
  then obtain k where k: "key_of h = Some k"
    by (auto simp: setdefault_def split: option.splits)
  have rl: "routes_loop m1 h rs = Inr (foldl (\<lambda>m r. upsert h r m) m rs)"
    by (rule setdefault_routes_loop [OF k Cons.prems(1) sd])
  with sd Cons.prems(2)
  have "hostnames_loop (foldl (\<lambda>m r. upsert h r m) m rs) hs rs = Inr m'"
    by simp
  from Cons.IH [OF Cons.prems(1) this] show ?case
    by (simp add: foldl_enter_map)
qed

subsection \<open>The routes of a resource are its paths in input order\<close>

lemma field_default_dict:
  "dict_get x a (PDict []) = Inr y \<Longrightarrow> field (field x a) k = field y k"
  by (cases x) (auto split: option.splits)

lemma field_default_none: "dict_get y k PNone = Inr v \<Longrightarrow> field y k = v"
  by (cases y) (auto split: option.splits)

lemma elements_default_list:
  "dict_get y k (PList []) = Inr v \<Longrightarrow> elements (field y k) = elements v"
  by (cases y) (auto simp: elements_def split: option.splits)

lemma elements_falsy: "\<not> truthy v \<Longrightarrow> elements v = []"
  by (cases v) (simp_all add: elements_def)

lemma elements_iter: "py_iter v = Inr xs \<Longrightarrow> elements v = xs"
  by (simp add: elements_def)

lemma match_route_paths:
  assumes "match_route mt = Inr r"
  shows "match_paths mt = (case r of None \<Rightarrow> [] | Some s \<Rightarrow> [s])"
proof -
  from assms obtain uri p where u: "dict_get mt ''uri'' (PDict []) = Inr uri"
    and a: "accepted_prefix uri = Inr p"
    by (auto simp: match_route_def split: sum.splits)
  from a obtain pp where pp: "dict_get uri ''prefixPattern'' PNone = Inr pp"
    by (auto simp: accepted_prefix_def split: sum.splits)
  have f1: "field (field mt ''uri'') ''prefixPattern'' = pp"
    using field_default_dict [OF u] field_default_none [OF pp] by simp
  have f2: "\<not> truthy pp \<Longrightarrow> field (field mt ''uri'') ''prefix'' = p"
  proof -
    assume "\<not> truthy pp"
    with a pp have "dict_get uri ''prefix'' PNone = Inr p"
      by (simp add: accepted_prefix_def)
    then show ?thesis
      using field_default_dict [OF u] field_default_none by simp
  qed
  have f3: "truthy pp \<Longrightarrow> p = pp"
    using a pp by (simp add: accepted_prefix_def)
  have v: "(if truthy (field (field mt ''uri'') ''prefixPattern'')
            then field (field mt ''uri'') ''prefixPattern''
            else field (field mt ''uri'') ''prefix'') = p"
    using f1 f2 f3 by auto
  have r: "match_route mt =
     (if \<not> truthy p then Inr None
      else (case p of
              PStr s \<Rightarrow> Inr (if prefix reserved_prefix s then None else Some s)
            | _ \<Rightarrow> Inl AttributeError))"
    using u a by (simp add: match_route_def)
  show ?thesis
    unfolding match_paths_def v
    using r assms by (cases p) (auto simp: reserved_prefix_def split: if_splits)
qed

lemma matches_loop_paths:
  "matches_loop acc mts = Inr out \<Longrightarrow> out = acc @ concat (map match_paths mts)"
proof (induction mts arbitrary: acc)
  case Nil
  then show ?case by simp
next
  case (Cons mt mts)
  from Cons.prems obtain r where r: "match_route mt = Inr r"
    by (auto split: sum.splits)
  show ?case
  proof (cases r)
    case None
    with r Cons.prems have "matches_loop acc mts = Inr out" by simp
    from Cons.IH [OF this] show ?thesis
      using match_route_paths [OF r] None by simp
  next
    case (Some s)
    with r Cons.prems have "matches_loop (acc @ [s]) mts = Inr out" by simp
    from Cons.IH [OF this] show ?thesis
      using match_route_paths [OF r] Some by simp
  qed
qed

lemma rules_loop_paths:
  "rules_loop acc rules = Inr out \<Longrightarrow> out = acc @ concat (map rule_paths rules)"
proof (induction rules arbitrary: acc)
  case Nil
  then show ?case by simp
next
  case (Cons rule rules)
  from Cons.prems obtain ms mts acc' where g: "dict_get rule ''matches'' (PList []) = Inr ms"
    and i: "py_iter ms = Inr mts" and ml: "matches_loop acc mts = Inr acc'"
    and rl: "rules_loop acc' rules = Inr out"
    by (auto split: sum.splits)
  have "rule_paths rule = concat (map match_paths mts)"
    using elements_default_list [OF g] elements_iter [OF i] by (simp add: rule_paths_def)
  then show ?case
    using matches_loop_paths [OF ml] Cons.IH [OF rl] by simp
qed

lemma item_routes_spec:
  assumes "item_routes item = Inr x"
  shows "(x = None \<and> resource_pairs item = [])
       \<or> (x = Some (field (field item ''spec'') ''hostnames'', resource_paths item)
          \<and> resource_paths item \<noteq> [])"
proof -
  from assms obtain spec hostnames rl rules
    where s: "dict_get item ''spec'' (PDict []) = Inr spec"
      and h: "dict_get spec ''hostnames'' PNone = Inr hostnames"
      and l: "dict_get spec ''rules'' (PDict []) = Inr rl"
      and t: "dict_get rl ''http'' (PList []) = Inr rules"
    by (auto simp: item_routes_def split: sum.splits)
  have fh: "field (field item ''spec'') ''hostnames'' = hostnames"
    using field_default_dict [OF s] field_default_none [OF h] by simp
  have "field (field (field item ''spec'') ''rules'') ''http'' = field (field spec ''rules'') ''http''"
    using field_default_dict [OF s, of "''rules''"] by simp
  then have fr: "elements (field (field (field item ''spec'') ''rules'') ''http'') = elements rules"
    using field_default_dict [OF l] elements_default_list [OF t] by simp
  show ?thesis
  proof (cases "\<not> truthy hostnames \<or> \<not> truthy rules")
    case True
    then have "resource_hostnames item = [] \<or> resource_paths item = []"
      using fh fr elements_falsy by (auto simp: resource_hostnames_def resource_paths_def)
    then have "resource_pairs item = []"
      by (auto simp: resource_pairs_def)
    moreover from True assms s h l t have "x = None"
      by (auto simp: item_routes_def)
    ultimately show ?thesis by simp
  next
    case False
    with assms s h l t obtain rs routes where i: "py_iter rules = Inr rs"
      and rl: "rules_loop [] rs = Inr routes"
      by (auto simp: item_routes_def split: sum.splits)
    with False assms s h l t have x: "x = (if routes = [] then None else Some (hostnames, routes))"
      by (auto simp: item_routes_def split: if_splits)
    have p: "resource_paths item = routes"
      using rules_loop_paths [OF rl] fr elements_iter [OF i] by (simp add: resource_paths_def)
    show ?thesis
    proof (cases "routes = []")
      case True
      with p x show ?thesis by (simp add: resource_pairs_def)
    next
      case False
      with p x fh show ?thesis by simp
    qed
  qed
qed

lemma parse_item_enter:
  assumes "parse_item m item = Inr m'"
  shows "m' = foldl enter m (resource_pairs item)"
proof -
  from assms obtain x where x: "item_routes item = Inr x"
    by (auto simp: parse_item_def split: sum.splits)
  from item_routes_spec [OF x] show ?thesis
  proof
    assume "x = None \<and> resource_pairs item = []"
    with x assms show ?thesis by (simp add: parse_item_def)
  next
    assume a: "x = Some (field (field item ''spec'') ''hostnames'', resource_paths item)
      \<and> resource_paths item \<noteq> []"
    with x assms obtain hs where hs: "py_iter (field (field item ''spec'') ''hostnames'') = Inr hs"
      and hl: "hostnames_loop m hs (resource_paths item) = Inr m'"
      by (auto simp: parse_item_def split: sum.splits)
    have "resource_hostnames item = hs"
      using elements_iter [OF hs] by (simp add: resource_hostnames_def)
    then show ?thesis
      using hostnames_loop_enter [OF _ hl] a by (simp add: resource_pairs_def)
  qed
qed

lemma items_loop_enter:
  "items_loop m items = Inr m' \<Longrightarrow> m' = foldl enter m (input_pairs items)"
proof (induction items arbitrary: m)
  case Nil
  then show ?case by (simp add: input_pairs_def)
next
  case (Cons item items)
  from Cons.prems obtain m1 where p: "parse_item m item = Inr m1"
    and l: "items_loop m1 items = Inr m'"
    by (auto split: sum.splits)
  show ?case
    using parse_item_enter [OF p] Cons.IH [OF l] by (simp add: input_pairs_def)
qed

subsection \<open>Entering pairs builds the first-encounter map\<close>

lemma upsert_map:
  "distinct (map key_of ks) \<Longrightarrow>
   upsert h r (map (\<lambda>h'. (h', F h')) ks) =
     (if key_of h \<in> key_of ` set ks
      then map (\<lambda>h'. (h', if key_of h' = key_of h
                           then (if r \<in> set (F h') then F h' else F h' @ [r])
                           else F h')) ks
      else map (\<lambda>h'. (h', F h')) ks @ [(h, [r])])"
proof (induction ks)
  case Nil
  then show ?case by simp
next
  case (Cons a ks)
  show ?case
  proof (cases "key_of a = key_of h")
    case True
    from Cons.prems True have "key_of h \<notin> key_of ` set ks" by simp
    then have "\<forall>h'\<in>set ks. key_of h' \<noteq> key_of h" by (metis imageI)
    with True show ?thesis by simp
  next
    case False
    with Cons show ?thesis by auto
  qed
qed

lemma paths_of_snoc:
  "paths_of h' (pairs @ [(h, r)]) =
     (if key_of h = key_of h'
      then (if r \<in> set (paths_of h' pairs) then paths_of h' pairs else paths_of h' pairs @ [r])
      else paths_of h' pairs)"
  by (simp add: paths_of_def first_seen_by_snoc set_first_seen_id)

lemma paths_of_fresh:
  "key_of h \<notin> key_of ` fst ` set pairs \<Longrightarrow> paths_of h (pairs @ [(h, r)]) = [r]"
proof -
  assume "key_of h \<notin> key_of ` fst ` set pairs"
  then have "\<forall>p\<in>set pairs. key_of (fst p) \<noteq> key_of h"
    by (metis imageI)
  then have "filter (\<lambda>p. key_of (fst p) = key_of h) pairs = []"
    by (simp add: filter_empty_conv)
  then show ?thesis by (simp add: paths_of_def)
qed

lemma first_seen_map_snoc:
  "first_seen_map (pairs @ [(h, r)]) = upsert h r (first_seen_map pairs)"
proof -
  let ?ks = "first_seen_by key_of (map fst pairs)"
  have d: "distinct (map key_of ?ks)" by (rule distinct_first_seen_by)
  have img: "key_of ` set ?ks = key_of ` fst ` set pairs"
    using image_first_seen_by [of key_of "map fst pairs"] by simp
  show ?thesis
  proof (cases "key_of h \<in> key_of ` fst ` set pairs")
    case True
    have "first_seen_map (pairs @ [(h, r)]) = map (\<lambda>h'. (h', paths_of h' (pairs @ [(h, r)]))) ?ks"
      using True by (simp add: first_seen_map_def first_seen_by_snoc)
    also have "\<dots> = upsert h r (map (\<lambda>h'. (h', paths_of h' pairs)) ?ks)"
      using True img by (simp add: upsert_map [OF d] paths_of_snoc eq_commute [of "key_of h"])
    finally show ?thesis by (simp add: first_seen_map_def)
  next
    case False
    have "first_seen_map (pairs @ [(h, r)]) =
            map (\<lambda>h'. (h', paths_of h' (pairs @ [(h, r)]))) ?ks @ [(h, [r])]"
      using False by (simp add: first_seen_map_def first_seen_by_snoc paths_of_fresh)
    also have "map (\<lambda>h'. (h', paths_of h' (pairs @ [(h, r)]))) ?ks =
                 map (\<lambda>h'. (h', paths_of h' pairs)) ?ks"
    proof (rule map_cong [OF refl])
      fix h' assume "h' \<in> set ?ks"
      then have "key_of h' \<in> key_of ` fst ` set pairs" using img by blast
      with False have "key_of h \<noteq> key_of h'" by metis
      then show "(h', paths_of h' (pairs @ [(h, r)])) = (h', paths_of h' pairs)"
        by (simp add: paths_of_snoc)
    qed
    also have "\<dots> @ [(h, [r])] = upsert h r (map (\<lambda>h'. (h', paths_of h' pairs)) ?ks)"
      using False img by (simp add: upsert_map [OF d])
    finally show ?thesis by (simp add: first_seen_map_def)
  qed
qed

lemma foldl_enter_first_seen_map: "foldl enter [] pairs = first_seen_map pairs"
proof (induction pairs rule: rev_induct)
  case Nil
  then show ?case by (simp add: first_seen_map_def)
next
  case (snoc p pairs)
  obtain h r where p: "p = (h, r)" by (cases p)
  show ?case
    using snoc by (simp add: p first_seen_map_snoc)
qed

lemma distinct_paths_of: "distinct (paths_of h pairs)"
  using distinct_first_seen_by [of "\<lambda>r. r"] by (simp add: paths_of_def)


subsection \<open>The result of parsing\<close>

lemma parse_apigee_routes_list:
  "parse_apigee_routes (PList items) = items_loop [] items"
  by (cases items) (simp_all add: parse_apigee_routes_def)

lemma parse_apigee_routes_pairs:
  assumes "parse_apigee_routes (PList items) = Inr m"
  shows "m = first_seen_map (input_pairs items)"
  using items_loop_enter [of "[]" items m] assms
  by (simp add: parse_apigee_routes_list foldl_enter_first_seen_map)

lemma parse_apigee_routes_any:
  assumes "parse_apigee_routes items = Inr m"
  shows "\<exists>xs. m = first_seen_map (input_pairs xs)"
proof (cases "truthy items")
  case False
  with assms have "m = []" by (simp add: parse_apigee_routes_def)
  then have "m = first_seen_map (input_pairs [])"
    by (simp add: first_seen_map_def input_pairs_def)
  then show ?thesis by blast
next
  case True
  with assms obtain xs where "items_loop [] xs = Inr m"
    by (auto simp: parse_apigee_routes_def split: sum.splits)
  from items_loop_enter [OF this] show ?thesis
    by (auto simp: foldl_enter_first_seen_map)
qed

subsection \<open>The reserved prefix\<close>

lemma match_paths_not_reserved: "s \<in> set (match_paths mt) \<Longrightarrow> \<not> prefix ''/__apigee__/'' s"
  by (auto simp: match_paths_def split: pyval.splits if_splits)

lemma input_pairs_not_reserved:
  "p \<in> set (input_pairs items) \<Longrightarrow> \<not> prefix ''/__apigee__/'' (snd p)"
  using match_paths_not_reserved
  by (fastforce simp: input_pairs_def resource_pairs_def resource_paths_def rule_paths_def)

lemma set_paths_of: "set (paths_of h pairs) \<subseteq> snd ` set pairs"
  by (auto simp: paths_of_def set_first_seen_id)

lemma first_seen_map_paths:
  "(h, ps) \<in> set (first_seen_map pairs) \<Longrightarrow> set ps \<subseteq> snd ` set pairs"
  using set_paths_of by (auto simp: first_seen_map_def)

lemma match_route_reserved:
  assumes "dict_get mt ''uri'' (PDict []) = Inr uri" and "accepted_prefix uri = Inr (PStr s)"
    and "prefix reserved_prefix s"
  shows "match_route mt = Inr None"
  using assms by (simp add: match_route_def)

text \<open>
  C4: no path in the route map returned by parsing is equal to \<^verbatim>\<open>/__apigee__/\<close> or starts
  with it, whatever the input; and a match whose accepted path value starts with the
  reserved prefix appends nothing: the loop over the matches goes on as if the match were
  not there.
\<close>

theorem no_reserved_path:
  "(parse_apigee_routes items = Inr m \<longrightarrow>
      (\<forall>(h, ps)\<in>set m. \<forall>p\<in>set ps. p \<noteq> ''/__apigee__/'' \<and> \<not> prefix ''/__apigee__/'' p))
   \<and> (dict_get mt ''uri'' (PDict []) = Inr uri \<longrightarrow> accepted_prefix uri = Inr (PStr s) \<longrightarrow>
        prefix ''/__apigee__/'' s \<longrightarrow>
        match_route mt = Inr None \<and> matches_loop routes (mt # mts) = matches_loop routes mts)"
proof (intro conjI impI)
  assume "parse_apigee_routes items = Inr m"
  from parse_apigee_routes_any [OF this] obtain xs
    where m: "m = first_seen_map (input_pairs xs)" by blast
  have "\<And>h ps p. (h, ps) \<in> set m \<Longrightarrow> p \<in> set ps \<Longrightarrow> \<not> prefix ''/__apigee__/'' p"
  proof -
    fix h ps p assume "(h, ps) \<in> set m" and p: "p \<in> set ps"
    then have "set ps \<subseteq> snd ` set (input_pairs xs)"
      using m by (simp add: first_seen_map_paths)
    with p obtain q where "q \<in> set (input_pairs xs)" and "p = snd q" by blast
    then show "\<not> prefix ''/__apigee__/'' p"
      by (simp add: input_pairs_not_reserved)
  qed
  then show "\<forall>(h, ps)\<in>set m. \<forall>p\<in>set ps. p \<noteq> ''/__apigee__/'' \<and> \<not> prefix ''/__apigee__/'' p"
    by fastforce
next
  assume a: "dict_get mt ''uri'' (PDict []) = Inr uri" "accepted_prefix uri = Inr (PStr s)"
    "prefix ''/__apigee__/'' s"
  then show m: "match_route mt = Inr None"
    by (simp add: match_route_reserved reserved_prefix_def)
  then show "matches_loop routes (mt # mts) = matches_loop routes mts"
    by simp
qed


theorem no_reserved_path_witness:
  "parse_apigee_routes
     (PList [PDict [(''spec'', PDict
        [(''hostnames'', PList [PStr ''a.example.com'']),
         (''rules'', PDict [(''http'', PList [PDict [(''matches'', PList
            [PDict [(''uri'', PDict [(''prefix'', PStr ''/__apigee__/internal'')])],
             PDict [(''uri'', PDict [(''prefix'', PStr ''/v1'')])]])]])])])]])
     = Inr [(PStr ''a.example.com'', [''/v1''])]
   \<and> ''/v1'' \<noteq> ''/__apigee__/'' \<and> \<not> prefix ''/__apigee__/'' ''/v1''
   \<and> dict_get (PDict [(''uri'', PDict [(''prefix'', PStr ''/__apigee__/internal'')])])
         ''uri'' (PDict []) = Inr (PDict [(''prefix'', PStr ''/__apigee__/internal'')])
   \<and> accepted_prefix (PDict [(''prefix'', PStr ''/__apigee__/internal'')])
         = Inr (PStr ''/__apigee__/internal'')
   \<and> prefix ''/__apigee__/'' ''/__apigee__/internal''
   \<and> match_route (PDict [(''uri'', PDict [(''prefix'', PStr ''/__apigee__/internal'')])]) = Inr None
   \<and> matches_loop [''/v0''] [PDict [(''uri'', PDict [(''prefix'', PStr ''/__apigee__/internal'')])]]
         = matches_loop [''/v0''] []"
proof -
  have p: "parse_apigee_routes
     (PList [PDict [(''spec'', PDict
        [(''hostnames'', PList [PStr ''a.example.com'']),
         (''rules'', PDict [(''http'', PList [PDict [(''matches'', PList
            [PDict [(''uri'', PDict [(''prefix'', PStr ''/__apigee__/internal'')])],
             PDict [(''uri'', PDict [(''prefix'', PStr ''/v1'')])]])]])])])]])
     = Inr [(PStr ''a.example.com'', [''/v1''])]"
    by code_simp
  have d: "dict_get (PDict [(''uri'', PDict [(''prefix'', PStr ''/__apigee__/internal'')])])
         ''uri'' (PDict []) = Inr (PDict [(''prefix'', PStr ''/__apigee__/internal'')])"
    by simp
  have a: "accepted_prefix (PDict [(''prefix'', PStr ''/__apigee__/internal'')])
         = Inr (PStr ''/__apigee__/internal'')"
    by (simp add: accepted_prefix_def)
  have s: "prefix ''/__apigee__/'' ''/__apigee__/internal''"
    by simp
  show ?thesis
    using p d a s
      no_reserved_path [of
        "PList [PDict [(''spec'', PDict
        [(''hostnames'', PList [PStr ''a.example.com'']),
         (''rules'', PDict [(''http'', PList [PDict [(''matches'', PList
            [PDict [(''uri'', PDict [(''prefix'', PStr ''/__apigee__/internal'')])],
             PDict [(''uri'', PDict [(''prefix'', PStr ''/v1'')])]])]])])])]]"
        "[(PStr ''a.example.com'', [''/v1''])]"
        "PDict [(''uri'', PDict [(''prefix'', PStr ''/__apigee__/internal'')])]"
        "PDict [(''prefix'', PStr ''/__apigee__/internal'')]"
        "''/__apigee__/internal''" "[''/v0'']" "[]"]
    by simp
qed

subsection \<open>The pipeline on the example, and the URL of every target\<close>

text \<open>
  C2: on the resource list with the single resource of hostname \<^verbatim>\<open>a.example.com\<close> and one
  match of prefix \<^verbatim>\<open>/v1/orders\<close>, and the address \<^verbatim>\<open>10.0.0.5\<close>, parsing followed by target
  generation returns exactly one target, the one the specification gives.
\<close>

theorem example_single_target:
  "transform
     (PList [PDict [(''spec'', PDict
        [(''hostnames'', PList [PStr ''a.example.com'']),
         (''rules'', PDict [(''http'', PList [PDict [(''matches'', PList
            [PDict [(''uri'', PDict [(''prefix'', PStr ''/v1/orders'')])]])]])])])]])
     ''10.0.0.5''
   = Inr [PDict [(''targets'', PList [PStr ''https://10.0.0.5/healthz/v1/orders'']),
                 (''labels'', PDict [(''apigee_hostname'', PStr ''a.example.com''),
                                     (''apigee_basepath'', PStr ''/v1/orders''),
                                     (''job'', PStr ''apigee-health'')])]]"
  by code_simp

lemma generate_prometheus_targets_mem:
  "t \<in> set (generate_prometheus_targets m ip) \<Longrightarrow> \<exists>h r. t = target ip h r"
  by (auto simp: generate_prometheus_targets_def targets_loop_eq)

text \<open>
  C3: for every input and every address, the "targets" list of every target returned by
  parsing followed by target generation holds a single URL, and that URL starts with
  \<^verbatim>\<open>https://<address>/healthz\<close>.
\<close>

theorem target_url_starts_with_healthz:
  assumes "transform items ip = Inr ts" and "t \<in> set ts"
  shows "\<exists>url. dict_get t ''targets'' PNone = Inr (PList [PStr url])
           \<and> prefix (''https://'' @ ip @ ''/healthz'') url"
proof -
  from assms obtain m where "t \<in> set (generate_prometheus_targets m ip)"
    by (auto simp: transform_def split: sum.splits)
  then obtain h r where "t = target ip h r"
    using generate_prometheus_targets_mem by blast
  then have "dict_get t ''targets'' PNone = Inr (PList [PStr (''https://'' @ ip @ ''/healthz'' @ r)])"
    by (simp add: target_def)
  moreover have "prefix (''https://'' @ ip @ ''/healthz'') (''https://'' @ ip @ ''/healthz'' @ r)"
    by simp
  ultimately show ?thesis by blast
qed

theorem target_url_starts_with_healthz_witness:
  "\<exists>url. dict_get (PDict [(''targets'', PList [PStr ''https://10.0.0.5/healthz/v1/orders'']),
                 (''labels'', PDict [(''apigee_hostname'', PStr ''a.example.com''),
                                     (''apigee_basepath'', PStr ''/v1/orders''),
                                     (''job'', PStr ''apigee-health'')])]) ''targets'' PNone
            = Inr (PList [PStr url])
         \<and> prefix ''https://10.0.0.5/healthz'' url"
proof -
  have a: "transform
     (PList [PDict [(''spec'', PDict
        [(''hostnames'', PList [PStr ''a.example.com'']),
         (''rules'', PDict [(''http'', PList [PDict [(''matches'', PList
            [PDict [(''uri'', PDict [(''prefix'', PStr ''/v1/orders'')])]])]])])])]])
     ''10.0.0.5''
   = Inr [PDict [(''targets'', PList [PStr ''https://10.0.0.5/healthz/v1/orders'']),
                 (''labels'', PDict [(''apigee_hostname'', PStr ''a.example.com''),
                                     (''apigee_basepath'', PStr ''/v1/orders''),
                                     (''job'', PStr ''apigee-health'')])]]"
    by code_simp
  have b: "PDict [(''targets'', PList [PStr ''https://10.0.0.5/healthz/v1/orders'']),
                 (''labels'', PDict [(''apigee_hostname'', PStr ''a.example.com''),
                                     (''apigee_basepath'', PStr ''/v1/orders''),
                                     (''job'', PStr ''apigee-health'')])]
      \<in> set [PDict [(''targets'', PList [PStr ''https://10.0.0.5/healthz/v1/orders'']),
                 (''labels'', PDict [(''apigee_hostname'', PStr ''a.example.com''),
                                     (''apigee_basepath'', PStr ''/v1/orders''),
                                     (''job'', PStr ''apigee-health'')])]]"
    by simp
  show ?thesis
    using target_url_starts_with_healthz [OF a b] by simp
qed

subsection \<open>De-duplication and order\<close>

lemma distinct_keys_first_seen_map: "distinct (map (\<lambda>e. key_of (fst e)) (first_seen_map pairs))"
  using distinct_first_seen_by [of key_of "map fst pairs"]
  by (simp add: first_seen_map_def comp_def)

lemma distinct_paths_first_seen_map:
  "(h, ps) \<in> set (first_seen_map pairs) \<Longrightarrow> distinct ps"
  by (auto simp: first_seen_map_def distinct_paths_of)

text \<open>
  C5: in the route map returned by parsing a resource list, no path list has a repeated
  entry (and no hostname has two entries), however often a path occurs in the matches,
  rules and resources of a hostname; the hostnames stand in the order of their first
  encounter in the input, and so do the paths of each hostname: the map is the
  first-encounter map of the (hostname, path) pairs read off the input in input order
  (resources, then the hostnames of a resource, then its rules, then the matches of a
  rule), in which the first occurrence is the one kept.
\<close>

theorem parse_first_encounter_order:
  assumes "parse_apigee_routes (PList items) = Inr m"
  shows "(\<forall>(h, ps)\<in>set m. distinct ps)
       \<and> distinct (map (\<lambda>e. key_of (fst e)) m)
       \<and> m = first_seen_map (input_pairs items)"
proof -
  have m: "m = first_seen_map (input_pairs items)"
    by (rule parse_apigee_routes_pairs [OF assms])
  have "\<forall>(h, ps)\<in>set m. distinct ps"
    using m distinct_paths_first_seen_map by blast
  moreover have "distinct (map (\<lambda>e. key_of (fst e)) m)"
    using m by (simp add: distinct_keys_first_seen_map)
  ultimately show ?thesis
    using m by blast
qed

theorem parse_first_encounter_order_witness:
  "parse_apigee_routes (PList
       [PDict [(''spec'', PDict
          [(''hostnames'', PList [PStr ''b'', PStr ''a'']),
           (''rules'', PDict [(''http'', PList
              [PDict [(''matches'', PList
                 [PDict [(''uri'', PDict [(''prefix'', PStr ''/v1'')])],
                  PDict [(''uri'', PDict [(''prefix'', PStr ''/v2'')])]])],
               PDict [(''matches'', PList
                 [PDict [(''uri'', PDict [(''prefix'', PStr ''/v1'')])]])]])])])],
        PDict [(''spec'', PDict
          [(''hostnames'', PList [PStr ''a'', PStr ''c'']),
           (''rules'', PDict [(''http'', PList
              [PDict [(''matches'', PList
                 [PDict [(''uri'', PDict [(''prefix'', PStr ''/v2'')])],
                  PDict [(''uri'', PDict [(''prefix'', PStr ''/v3'')])]])]])])])]])
     = Inr [(PStr ''b'', [''/v1'', ''/v2'']),
            (PStr ''a'', [''/v1'', ''/v2'', ''/v3'']),
            (PStr ''c'', [''/v2'', ''/v3''])]
   \<and> distinct [''/v1'', ''/v2''] \<and> distinct [''/v1'', ''/v2'', ''/v3''] \<and> distinct [''/v2'', ''/v3'']
   \<and> distinct [key_of (PStr ''b''), key_of (PStr ''a''), key_of (PStr ''c'')]
   \<and> input_pairs
       [PDict [(''spec'', PDict
          [(''hostnames'', PList [PStr ''b'', PStr ''a'']),
           (''rules'', PDict [(''http'', PList
              [PDict [(''matches'', PList
                 [PDict [(''uri'', PDict [(''prefix'', PStr ''/v1'')])],
                  PDict [(''uri'', PDict [(''prefix'', PStr ''/v2'')])]])],
               PDict [(''matches'', PList
                 [PDict [(''uri'', PDict [(''prefix'', PStr ''/v1'')])]])]])])])],
        PDict [(''spec'', PDict
          [(''hostnames'', PList [PStr ''a'', PStr ''c'']),
           (''rules'', PDict [(''http'', PList
              [PDict [(''matches'', PList
                 [PDict [(''uri'', PDict [(''prefix'', PStr ''/v2'')])],
                  PDict [(''uri'', PDict [(''prefix'', PStr ''/v3'')])]])]])])])]]
       = [(PStr ''b'', ''/v1''), (PStr ''b'', ''/v2''), (PStr ''b'', ''/v1''),
          (PStr ''a'', ''/v1''), (PStr ''a'', ''/v2''), (PStr ''a'', ''/v1''),
          (PStr ''a'', ''/v2''), (PStr ''a'', ''/v3''),
          (PStr ''c'', ''/v2''), (PStr ''c'', ''/v3'')]
   \<and> [(PStr ''b'', [''/v1'', ''/v2'']),
            (PStr ''a'', [''/v1'', ''/v2'', ''/v3'']),
            (PStr ''c'', [''/v2'', ''/v3''])]
       = first_seen_map
          [(PStr ''b'', ''/v1''), (PStr ''b'', ''/v2''), (PStr ''b'', ''/v1''),
           (PStr ''a'', ''/v1''), (PStr ''a'', ''/v2''), (PStr ''a'', ''/v1''),
           (PStr ''a'', ''/v2''), (PStr ''a'', ''/v3''),
           (PStr ''c'', ''/v2''), (PStr ''c'', ''/v3'')]"
proof -
  have p: "parse_apigee_routes (PList
       [PDict [(''spec'', PDict
          [(''hostnames'', PList [PStr ''b'', PStr ''a'']),
           (''rules'', PDict [(''http'', PList
              [PDict [(''matches'', PList
                 [PDict [(''uri'', PDict [(''prefix'', PStr ''/v1'')])],
                  PDict [(''uri'', PDict [(''prefix'', PStr ''/v2'')])]])],
               PDict [(''matches'', PList
                 [PDict [(''uri'', PDict [(''prefix'', PStr ''/v1'')])]])]])])])],
        PDict [(''spec'', PDict
          [(''hostnames'', PList [PStr ''a'', PStr ''c'']),
           (''rules'', PDict [(''http'', PList
              [PDict [(''matches'', PList
                 [PDict [(''uri'', PDict [(''prefix'', PStr ''/v2'')])],
                  PDict [(''uri'', PDict [(''prefix'', PStr ''/v3'')])]])]])])])]])
     = Inr [(PStr ''b'', [''/v1'', ''/v2'']),
            (PStr ''a'', [''/v1'', ''/v2'', ''/v3'']),
            (PStr ''c'', [''/v2'', ''/v3''])]"
    by code_simp
  have e: "input_pairs
       [PDict [(''spec'', PDict
          [(''hostnames'', PList [PStr ''b'', PStr ''a'']),
           (''rules'', PDict [(''http'', PList
              [PDict [(''matches'', PList
                 [PDict [(''uri'', PDict [(''prefix'', PStr ''/v1'')])],
                  PDict [(''uri'', PDict [(''prefix'', PStr ''/v2'')])]])],
               PDict [(''matches'', PList
                 [PDict [(''uri'', PDict [(''prefix'', PStr ''/v1'')])]])]])])])],
        PDict [(''spec'', PDict
          [(''hostnames'', PList [PStr ''a'', PStr ''c'']),
           (''rules'', PDict [(''http'', PList
              [PDict [(''matches'', PList
                 [PDict [(''uri'', PDict [(''prefix'', PStr ''/v2'')])],
                  PDict [(''uri'', PDict [(''prefix'', PStr ''/v3'')])]])]])])])]]
     = [(PStr ''b'', ''/v1''), (PStr ''b'', ''/v2''), (PStr ''b'', ''/v1''),
        (PStr ''a'', ''/v1''), (PStr ''a'', ''/v2''), (PStr ''a'', ''/v1''),
        (PStr ''a'', ''/v2''), (PStr ''a'', ''/v3''),
        (PStr ''c'', ''/v2''), (PStr ''c'', ''/v3'')]"
    by code_simp
  show ?thesis
    using parse_first_encounter_order [OF p] p e by auto
qed

subsection \<open>Precedence of \<^verbatim>\<open>prefixPattern\<close> over \<^verbatim>\<open>prefix\<close>\<close>

text \<open>
  C6 as stated fails: a URI matcher with both fields whose "prefixPattern" is the empty
  string has "prefixPattern" present, and the accepted path value is the value of "prefix".
\<close>

theorem prefixPattern_empty_counterexample:
  "dict_get (PDict [(''prefixPattern'', PStr ''''), (''prefix'', PStr ''/v1'')])
      ''prefixPattern'' PNone = Inr (PStr '''')
   \<and> dict_get (PDict [(''prefixPattern'', PStr ''''), (''prefix'', PStr ''/v1'')])
      ''prefix'' PNone = Inr (PStr ''/v1'')
   \<and> accepted_prefix (PDict [(''prefixPattern'', PStr ''''), (''prefix'', PStr ''/v1'')])
      \<noteq> Inr (PStr '''')
   \<and> accepted_prefix (PDict [(''prefixPattern'', PStr ''''), (''prefix'', PStr ''/v1'')])
      = Inr (PStr ''/v1'')
   \<and> match_route (PDict [(''uri'',
        PDict [(''prefixPattern'', PStr ''''), (''prefix'', PStr ''/v1'')])])
      = Inr (Some ''/v1'')"
  by (simp add: accepted_prefix_def match_route_def reserved_prefix_def)

text \<open>
  C6, amended: for a URI matcher, the value of "prefixPattern" is the accepted path value
  whenever it is present and truthy (not null, not empty); the value of "prefix" is used
  when "prefixPattern" is absent, and also when it is present but falsy.
\<close>

theorem accepted_prefix_precedence:
  "(map_of kvs ''prefixPattern'' = Some pp \<and> truthy pp \<longrightarrow>
      accepted_prefix (PDict kvs) = Inr pp)
   \<and> (map_of kvs ''prefixPattern'' = Some pp \<and> \<not> truthy pp \<and> map_of kvs ''prefix'' = Some p \<longrightarrow>
      accepted_prefix (PDict kvs) = Inr p)
   \<and> (map_of kvs ''prefixPattern'' = None \<and> map_of kvs ''prefix'' = Some p \<longrightarrow>
      accepted_prefix (PDict kvs) = Inr p)"
  by (simp add: accepted_prefix_def)

theorem accepted_prefix_precedence_witness:
  "map_of [(''prefixPattern'', PStr ''/a''), (''prefix'', PStr ''/b'')] ''prefixPattern''
     = Some (PStr ''/a'')
   \<and> truthy (PStr ''/a'')
   \<and> accepted_prefix (PDict [(''prefixPattern'', PStr ''/a''), (''prefix'', PStr ''/b'')])
     = Inr (PStr ''/a'')
   \<and> map_of [(''prefixPattern'', PStr ''''), (''prefix'', PStr ''/b'')] ''prefixPattern''
     = Some (PStr '''')
   \<and> \<not> truthy (PStr '''')
   \<and> map_of [(''prefixPattern'', PStr ''''), (''prefix'', PStr ''/b'')] ''prefix''
     = Some (PStr ''/b'')
   \<and> accepted_prefix (PDict [(''prefixPattern'', PStr ''''), (''prefix'', PStr ''/b'')])
     = Inr (PStr ''/b'')
   \<and> map_of [(''prefix'', PStr ''/b'')] ''prefixPattern'' = None
   \<and> map_of [(''prefix'', PStr ''/b'')] ''prefix'' = Some (PStr ''/b'')
   \<and> accepted_prefix (PDict [(''prefix'', PStr ''/b'')]) = Inr (PStr ''/b'')"
proof -
  have a: "map_of [(''prefixPattern'', PStr ''/a''), (''prefix'', PStr ''/b'')] ''prefixPattern''
     = Some (PStr ''/a'') \<and> truthy (PStr ''/a'')"
    by simp
  have b: "map_of [(''prefixPattern'', PStr ''''), (''prefix'', PStr ''/b'')] ''prefixPattern''
     = Some (PStr '''') \<and> \<not> truthy (PStr '''')
     \<and> map_of [(''prefixPattern'', PStr ''''), (''prefix'', PStr ''/b'')] ''prefix''
     = Some (PStr ''/b'')"
    by simp
  have c: "map_of [(''prefix'', PStr ''/b'')] ''prefixPattern'' = None
     \<and> map_of [(''prefix'', PStr ''/b'')] ''prefix'' = Some (PStr ''/b'')"
    by simp
  have a': "accepted_prefix (PDict [(''prefixPattern'', PStr ''/a''), (''prefix'', PStr ''/b'')])
     = Inr (PStr ''/a'')"
    using a accepted_prefix_precedence
      [of "[(''prefixPattern'', PStr ''/a''), (''prefix'', PStr ''/b'')]" "PStr ''/a''"]
    by blast
  have b': "accepted_prefix (PDict [(''prefixPattern'', PStr ''''), (''prefix'', PStr ''/b'')])
     = Inr (PStr ''/b'')"
    using b accepted_prefix_precedence
      [of "[(''prefixPattern'', PStr ''''), (''prefix'', PStr ''/b'')]" "PStr ''''" "PStr ''/b''"]
    by blast
  have c': "accepted_prefix (PDict [(''prefix'', PStr ''/b'')]) = Inr (PStr ''/b'')"
    using c accepted_prefix_precedence [of "[(''prefix'', PStr ''/b'')]" _ "PStr ''/b''"]
    by blast
  show ?thesis
    using a b c a' b' c' by blast
qed

subsection \<open>Skipped resources\<close>





subsection \<open>The program\<close>

lemma get_k8s_service_ip_nonempty:
  "get_k8s_service_ip resp = Inr (Some ip) \<Longrightarrow> ip \<noteq> []"
  by (auto simp: get_k8s_service_ip_def split: api_call.splits option.splits if_splits)

text \<open>
  C8: when the run reaches parsing (the configuration loads, the resolver returns an
  address, the fetch returns a list) and parsing returns the empty route map, the program
  dumps the empty JSON array to the output file and ends with exit code 0.
\<close>

theorem main_empty_route_map:
  assumes "incluster_config c"
    and "get_k8s_service_ip (service c) = Inr (Some service_ip)"
    and "get_apigee_routes_from_cluster (incluster_config c) (apigee_routes c) = Inr items"
    and "items \<noteq> PNone"
    and "parse_apigee_routes items = Inr []"
  shows "main c = \<lparr>exit_code = 0, written = Some (PList [], None)\<rparr>"
  using assms get_k8s_service_ip_nonempty [OF assms(2)]
  by (simp add: main_def)

theorem main_empty_route_map_witness:
  "main \<lparr>incluster_config = True,
         service = Returned \<lparr>service_spec = Some \<lparr>cluster_ip = Some ''10.0.0.5''\<rparr>\<rparr>,
         apigee_routes = Returned (PDict [(''items'', PList
           [PDict [(''spec'', PDict [(''hostnames'', PList [PStr ''a.example.com''])])]])])\<rparr>
     = \<lparr>exit_code = 0, written = Some (PList [], None)\<rparr>"
proof -
  let ?c = "\<lparr>incluster_config = True,
         service = Returned \<lparr>service_spec = Some \<lparr>cluster_ip = Some ''10.0.0.5''\<rparr>\<rparr>,
         apigee_routes = Returned (PDict [(''items'', PList
           [PDict [(''spec'', PDict [(''hostnames'', PList [PStr ''a.example.com''])])]])])\<rparr>"
  have a: "incluster_config ?c" by simp
  have b: "get_k8s_service_ip (service ?c) = Inr (Some ''10.0.0.5'')"
    by (simp add: get_k8s_service_ip_def)
  have f: "get_apigee_routes_from_cluster (incluster_config ?c) (apigee_routes ?c)
     = Inr (PList [PDict [(''spec'', PDict [(''hostnames'', PList [PStr ''a.example.com''])])]])"
    by (simp add: get_apigee_routes_from_cluster_def)
  have n: "PList [PDict [(''spec'', PDict [(''hostnames'', PList [PStr ''a.example.com''])])]] \<noteq> PNone"
    by simp
  have p: "parse_apigee_routes
      (PList [PDict [(''spec'', PDict [(''hostnames'', PList [PStr ''a.example.com''])])]]) = Inr []"
    by (simp add: parse_apigee_routes_def parse_item_def item_routes_def)
  show ?thesis
    by (rule main_empty_route_map [OF a b f n p])
qed

text \<open>
  C10: for a Service whose ClusterIP is missing, empty or the string "None", the resolver
  returns the failure signal, and the run ends with exit code 1 and writes nothing.
\<close>

theorem headless_service_aborts:
  assumes "service c = Returned svc"
    and "service_spec svc = Some sp"
    and "cluster_ip sp = None \<or> cluster_ip sp = Some [] \<or> cluster_ip sp = Some ''None''"
  shows "get_k8s_service_ip (service c) = Inr None
       \<and> main c = \<lparr>exit_code = 1, written = None\<rparr>"
proof -
  have "get_k8s_service_ip (service c) = Inr None"
    using assms by (auto simp: get_k8s_service_ip_def)
  then show ?thesis
    by (simp add: main_def sys_exit_def)
qed

theorem headless_service_aborts_witness:
  "get_k8s_service_ip (Returned \<lparr>service_spec = Some \<lparr>cluster_ip = Some ''None''\<rparr>\<rparr>) = Inr None
   \<and> main \<lparr>incluster_config = True,
           service = Returned \<lparr>service_spec = Some \<lparr>cluster_ip = Some ''None''\<rparr>\<rparr>,
           apigee_routes = Returned (PDict [(''items'', PList [])])\<rparr>
       = \<lparr>exit_code = 1, written = None\<rparr>"
proof -
  let ?svc = "\<lparr>service_spec = Some \<lparr>cluster_ip = Some ''None''\<rparr>\<rparr>"
  let ?c = "\<lparr>incluster_config = True, service = Returned ?svc,
            apigee_routes = Returned (PDict [(''items'', PList [])])\<rparr>"
  have a: "service ?c = Returned ?svc" by simp
  have b: "service_spec ?svc = Some \<lparr>cluster_ip = Some ''None''\<rparr>" by simp
  have d: "cluster_ip \<lparr>cluster_ip = Some ''None''\<rparr> = None
        \<or> cluster_ip \<lparr>cluster_ip = Some ''None''\<rparr> = Some []
        \<or> cluster_ip \<lparr>cluster_ip = Some ''None''\<rparr> = Some ''None''" by simp
  show ?thesis
    using headless_service_aborts [OF a b d] by simp
qed

end
